theory Spec2Isabelle
  imports Complex_Main "HOL-Library.Word" "HOL-Library.Signed_Division" "HOL-Library.Log_Nat"
begin

section \<open>Numeric types\<close>

text \<open>
  The routines of \<^verbatim>\<open>Firmware/Mathematics\<close> use the C++ types \<^verbatim>\<open>int\<close>, \<^verbatim>\<open>long\<close>,
  \<^verbatim>\<open>double\<close> and the wide type \<^verbatim>\<open>double8192_t\<close> of \<^verbatim>\<open>Firmware/Namespaces/data.cpp\<close>.
  \<^item> \<^verbatim>\<open>int\<close> is a 32-bit and \<^verbatim>\<open>long\<close> a 64-bit two's complement word (the LP64 data
    model); arithmetic wraps around, which is what the hardware does where C++ leaves
    signed overflow undefined. \<^verbatim>\<open>size_t\<close> has the width of \<^verbatim>\<open>long\<close>.
  \<^item> \<^verbatim>\<open>double\<close> is IEEE 754 binary64: a finite value, a negative zero, an infinity or
    a NaN. Every operation rounds its exact result to the nearest value of 53
    significant bits, a tie going to the even one, with gradual underflow below
    \<open>2^-1022\<close> and overflow to an infinity from \<open>2^1024\<close>.
  \<^item> \<^verbatim>\<open>double8192_t\<close> is declared in \<^verbatim>\<open>data.cpp\<close> as a name for a string literal, with
    the comment \<^verbatim>\<open>Signed 8192-bit double precision number\<close>; no source file gives it an
    arithmetic. Its values are rationals here, and the rounding of the type, applied
    to every conversion, product and quotient, is a parameter \<open>rnd\<close> of the model.
\<close>

type_synonym c_int = "32 word"
type_synonym c_long = "64 word"

text \<open>
  \<open>Finite x\<close> is the double of value \<open>x\<close>, the positive zero for \<open>x = 0\<close>; \<open>NegZero\<close> is
  the negative zero. The payload and the sign of a NaN are not kept: no operation of the
  source reads them.
\<close>

datatype double = Finite rat | NegZero | PInf | NInf | NaN

text \<open>
  Rounding to binary64. \<open>binary_exponent x\<close> is the \<open>e\<close> with \<open>2^e \<le> |x| < 2^(e+1)\<close>, for
  \<open>x \<noteq> 0\<close>. The unit in the last place of a value of exponent \<open>e\<close> is \<open>2^(e-52)\<close>, and
  \<open>2^-1074\<close> for the subnormal values. A result that rounds to zero keeps the sign of
  the exact value.
\<close>

definition pow2 :: "int \<Rightarrow> rat" where
  "pow2 e = (if 0 \<le> e then 2 ^ nat e else 1 / 2 ^ nat (- e))"

definition binary_exponent :: "rat \<Rightarrow> int" where
  "binary_exponent x =
     (if 1 \<le> \<bar>x\<bar> then bitlen \<lfloor>\<bar>x\<bar>\<rfloor> - 1 else - bitlen (\<lceil>1 / \<bar>x\<bar>\<rceil> - 1))"

definition round_to_even :: "rat \<Rightarrow> int" where
  "round_to_even y =
     (let d = \<lfloor>y\<rfloor>; t = y - of_int d
      in if 2 * t < 1 then d
         else if 1 < 2 * t then d + 1
         else if even d then d
         else d + 1)"

definition binary64 :: "rat \<Rightarrow> double" where
  "binary64 x =
     (if x = 0 then Finite 0
      else (let ulp = pow2 (max (binary_exponent x - 52) (- 1074));
                y = of_int (round_to_even (x / ulp)) * ulp
            in if y = 0 then (if 0 < x then Finite 0 else NegZero)
               else if 1024 \<le> binary_exponent y then (if 0 < x then PInf else NInf)
               else Finite y))"

text \<open>The sign bit of a double, and its value when it is a zero or a finite number.\<close>

fun sign_bit :: "double \<Rightarrow> bool" where
  "sign_bit (Finite x) = (x < 0)"
| "sign_bit NegZero = True"
| "sign_bit PInf = False"
| "sign_bit NInf = True"
| "sign_bit NaN = False"

fun finite_value :: "double \<Rightarrow> rat option" where
  "finite_value (Finite x) = Some x"
| "finite_value NegZero = Some 0"
| "finite_value x = None"

definition signed_zero :: "bool \<Rightarrow> double" where
  "signed_zero s = (if s then NegZero else Finite 0)"

definition signed_inf :: "bool \<Rightarrow> double" where
  "signed_inf s = (if s then NInf else PInf)"

text \<open>
  Division of doubles. The sign of the result is the exclusive or of the signs of the
  operands; \<open>0/0\<close> and \<open>inf/inf\<close> are NaN, a nonzero value over a zero is an infinity.
\<close>

definition double_div :: "double \<Rightarrow> double \<Rightarrow> double" where
  "double_div x y =
     (if x = NaN \<or> y = NaN then NaN
      else (let s = (sign_bit x \<noteq> sign_bit y)
            in case (finite_value x, finite_value y) of
                 (None, None) \<Rightarrow> NaN
               | (None, Some b) \<Rightarrow> signed_inf s
               | (Some a, None) \<Rightarrow> signed_zero s
               | (Some a, Some b) \<Rightarrow>
                   if b = 0 then (if a = 0 then NaN else signed_inf s)
                   else if a = 0 then signed_zero s
                   else binary64 (a / b)))"

text \<open>
  Subtraction of doubles. The difference of two infinities of one sign is NaN. An exact
  difference of zero is the positive zero, except that \<open>-0 - +0\<close> is \<open>-0\<close>.
\<close>

definition double_sub :: "double \<Rightarrow> double \<Rightarrow> double" where
  "double_sub x y =
     (if x = NaN \<or> y = NaN then NaN
      else case (finite_value x, finite_value y) of
             (None, None) \<Rightarrow> if sign_bit x = sign_bit y then NaN else x
           | (None, Some b) \<Rightarrow> x
           | (Some a, None) \<Rightarrow> signed_inf (\<not> sign_bit y)
           | (Some a, Some b) \<Rightarrow>
               if a = b then (if x = NegZero \<and> y = Finite 0 then NegZero else Finite 0)
               else binary64 (a - b))"

text \<open>
  The comparison \<^verbatim>\<open>==\<close> of doubles: a NaN is equal to nothing, and the two zeros are
  equal.
\<close>

fun double_eq :: "double \<Rightarrow> double \<Rightarrow> bool" where
  "double_eq NaN y = False"
| "double_eq x NaN = False"
| "double_eq NegZero (Finite y) = (y = 0)"
| "double_eq (Finite x) NegZero = (x = 0)"
| "double_eq x y = (x = y)"

text \<open>
  Conversion of an integer to \<^verbatim>\<open>double\<close>. A 32-bit \<^verbatim>\<open>int\<close> has at most 31 significant
  bits and converts exactly; a \<^verbatim>\<open>long\<close> or a \<^verbatim>\<open>size_t\<close> of more than 53 significant bits
  is rounded.
\<close>

definition double_of_int :: "c_int \<Rightarrow> double" where
  "double_of_int x = Finite (of_int (sint x))"

definition double_of_long :: "c_long \<Rightarrow> double" where
  "double_of_long x = binary64 (of_int (sint x))"

definition double_of_size :: "c_long \<Rightarrow> double" where
  "double_of_size x = binary64 (of_int (uint x))"

text \<open>
  The rounding of \<^verbatim>\<open>double8192_t\<close> is a function on the rationals. \<open>exact\<close> is the
  rounding of a format that holds every value it is given. The closed examples use it:
  their values are factorials up to \<open>5!\<close>, binomial coefficients up to 10, \<open>1/2\<close> and
  \<open>1/4\<close>, which a binary format of that width holds exactly.
\<close>

type_synonym rounding = "rat \<Rightarrow> rat"

definition exact :: rounding where
  "exact x = x"

text \<open>
  Conversion of a wide floating value to \<^verbatim>\<open>long\<close>: truncation towards zero. C++ leaves
  the conversion of a value outside the range of \<^verbatim>\<open>long\<close> undefined; it is reduced modulo
  \<open>2^64\<close> here.
\<close>

definition long_of_wide :: "rat \<Rightarrow> c_long" where
  "long_of_wide x = word_of_int (if 0 \<le> x then \<lfloor>x\<rfloor> else \<lceil>x\<rceil>)"

text \<open>
  The failures of the model are those of the factorial, which the spec reports to the
  caller: \<open>InvalidRange\<close> on a negative argument, \<open>Overflow\<close> on a result beyond the
  declared width.
\<close>

datatype fault = InvalidRange | Overflow

section \<open>Number theory (\<^verbatim>\<open>Firmware/Mathematics/number_theory.cpp\<close>)\<close>

text \<open>
  \<^verbatim>\<open>double gauss_sum (int n) { double result = (n*(n+1))/2; return result; }\<close>
  The product, the sum and the division are \<^verbatim>\<open>int\<close> operations; the division truncates
  towards zero.
\<close>

definition int_div :: "c_int \<Rightarrow> c_int \<Rightarrow> c_int" where
  "int_div a b = word_of_int (sint a sdiv sint b)"

definition gauss_sum :: "c_int \<Rightarrow> double" where
  "gauss_sum n = (let result = double_of_int (int_div (n * (n + 1)) 2) in result)"

text \<open>
  Modelled from the spec: \<^verbatim>\<open>factorial\<close>, which \<^verbatim>\<open>combination\<close> and \<^verbatim>\<open>permutation\<close>
  call and no source file defines. The spec has it defined for \<open>n \<ge> 0\<close> with
  \<open>factorial(0) = 1\<close>, computed iteratively by repeated multiplication of wide integers,
  failing with \<open>InvalidRange\<close> on a negative \<open>n\<close> and with \<open>Overflow\<close> when the result
  exceeds the declared width. The width is the 8192 bits of the type that receives the
  result in the source; \<open>fits_wide\<close> counts the bits of the magnitude (the spec does not
  say whether the sign takes one of them). The products grow, so a product that
  overflows on the way makes the last one overflow too.
\<close>

definition fits_wide :: "int \<Rightarrow> bool" where
  "fits_wide x \<longleftrightarrow> bitlen x \<le> 8192"

definition factorial :: "int \<Rightarrow> fault + int" where
  "factorial n =
     (if n < 0 then Inl InvalidRange
      else (let product = fold (\<lambda>i acc. acc * int i) [1 ..< Suc (nat n)] 1
            in if fits_wide product then Inr product else Inl Overflow))"

text \<open>
  \<^verbatim>\<open>combination\<close> and \<^verbatim>\<open>permutation\<close> evaluate their factorials in the order of the
  source; a failing factorial ends the call. Each factorial is converted to
  \<^verbatim>\<open>double8192_t\<close>, and the product and the quotient are operations of that type: all
  are rounded by \<open>rnd\<close>. The arguments are the integers the callers pass, and the
  difference \<open>n - r\<close> of two integers is taken exactly.
\<close>

definition combination :: "rounding \<Rightarrow> int \<Rightarrow> int \<Rightarrow> fault + rat" where
  "combination rnd n r =
     (case factorial n of Inl e \<Rightarrow> Inl e | Inr nf \<Rightarrow>
      case factorial (n - r) of Inl e \<Rightarrow> Inl e | Inr nrf \<Rightarrow>
      case factorial r of Inl e \<Rightarrow> Inl e | Inr rf \<Rightarrow>
        (let n_factorial = rnd (of_int nf);
             n_r_factorial = rnd (of_int nrf);
             r_factorial = rnd (of_int rf);
             ncr = rnd (n_factorial / rnd (n_r_factorial * r_factorial))
         in Inr ncr))"

definition permutation :: "rounding \<Rightarrow> int \<Rightarrow> int \<Rightarrow> fault + rat" where
  "permutation rnd n r =
     (case factorial n of Inl e \<Rightarrow> Inl e | Inr nf \<Rightarrow>
      case factorial (n - r) of Inl e \<Rightarrow> Inl e | Inr nrf \<Rightarrow>
        (let n_factorial = rnd (of_int nf);
             n_r_factorial = rnd (of_int nrf);
             npr = rnd (n_factorial / n_r_factorial)
         in Inr npr))"

text \<open>
  \<^verbatim>\<open>divisibility_theorem\<close>: the loop body \<^verbatim>\<open>q = a/b; r = a - q; b = q;\<close> runs once for
  every \<^verbatim>\<open>l\<close> with \<^verbatim>\<open>0 <= l < interations\<close>. The loop state is \<open>(q, r, b)\<close>; the function
  returns the pair \<open>(q, r)\<close> of its last two locals. It has no other result: the source
  contains no check and no failure value.
\<close>

fun divisibility_loop :: "nat \<Rightarrow> double \<Rightarrow> double \<times> double \<times> double \<Rightarrow> double \<times> double \<times> double" where
  "divisibility_loop 0 a (q, r, b) = (q, r, b)"
| "divisibility_loop (Suc k) a (q, r, b) =
     (let q' = double_div a b;
          r' = double_sub a q';
          b' = q'
      in divisibility_loop k a (q', r', b'))"

definition divisibility_theorem :: "double \<Rightarrow> double \<Rightarrow> c_long \<Rightarrow> double \<times> double" where
  "divisibility_theorem a b interations =
     (case divisibility_loop (nat (sint interations)) a (Finite 0, Finite 0, b) of
        (q, r, b') \<Rightarrow> (q, r))"

section \<open>Binomial distribution (\<^verbatim>\<open>Firmware/Mathematics/distributions.cpp\<close>)\<close>

text \<open>
  Both routines take the samples as \<^verbatim>\<open>double set[]\<close>, which is a pointer, and use
  \<^verbatim>\<open>sizeof(set)\<close> as the number of samples: the size of a pointer in bytes, a positive
  constant of the platform (8 under LP64). It is the parameter \<open>sz\<close> of the model.

  The source checks no bound. The parameter \<open>samples\<close> (the source's name \<^verbatim>\<open>set\<close> is taken
  in HOL) is the memory behind the pointer: \<open>samples l\<close> is the double that \<^verbatim>\<open>set[l]\<close>
  reads, inside the array of the caller or after its end. \<open>array_then xs rest\<close> is the memory
  that holds the array \<open>xs\<close> followed by the doubles \<open>rest 0\<close>, \<open>rest 1\<close>, ...
\<close>

type_synonym double_ptr = "nat \<Rightarrow> double"

definition array_then :: "double list \<Rightarrow> double_ptr \<Rightarrow> double_ptr" where
  "array_then xs rest l = (if l < length xs then xs ! l else rest (l - length xs))"

text \<open>
  The loop \<^verbatim>\<open>for (long l = 0; l < sizeof(set); l++) if (set[l] == value_to_search_for) count++;\<close>
  appears in both routines. \<open>count_loop samples v l k count\<close> runs its remaining \<open>k\<close>
  rounds from index \<open>l\<close>.
\<close>

fun count_loop :: "double_ptr \<Rightarrow> double \<Rightarrow> nat \<Rightarrow> nat \<Rightarrow> c_long \<Rightarrow> c_long" where
  "count_loop samples v l 0 count = count"
| "count_loop samples v l (Suc k) count =
     count_loop samples v (Suc l) k (if double_eq (samples l) v then count + 1 else count)"

text \<open>The loops \<^verbatim>\<open>p = p * p\<close> and \<^verbatim>\<open>q = q * q\<close>, run \<open>k\<close> times.\<close>

definition square_times :: "nat \<Rightarrow> c_long \<Rightarrow> c_long" where
  "square_times k x = ((\<lambda>y. y * y) ^^ k) x"

text \<open>
  The locals of \<^verbatim>\<open>pmf\<close>. \<open>pmf_result s i\<close> is the cell \<^verbatim>\<open>result[i]\<close> of the automatic array
  \<^verbatim>\<open>double result[sizeof(set)]\<close>, or the cell that follows the array for
  \<open>i \<ge> sizeof(set)\<close>: the source writes \<^verbatim>\<open>result[iteration]\<close> without a check. A cell is
  \<open>None\<close> until the routine writes it. The cells after the array are taken to be distinct
  from the other locals.
\<close>

record pmf_locals =
  pmf_count :: c_long
  pmf_ncr :: c_long
  pmf_p :: c_long
  pmf_q :: c_long
  pmf_iteration :: c_long
  pmf_result :: "nat \<Rightarrow> double option"

text \<open>
  \<^verbatim>\<open>result[iteration] = x\<close>, the \<^verbatim>\<open>long\<close> value \<open>x\<close> converted to \<^verbatim>\<open>double\<close>. Both
  branches that store have \<open>iteration \<ge> 0\<close>.
\<close>

definition store_result :: "pmf_locals \<Rightarrow> c_long \<Rightarrow> pmf_locals" where
  "store_result s x =
     s\<lparr>pmf_result := (pmf_result s)(nat (sint (pmf_iteration s)) := Some (double_of_long x))\<rparr>"

text \<open>
  Lines 20 to 24: the count loop, then \<^verbatim>\<open>p = count/sizeof(set); q = 1 - p;\<close>. The
  division is the unsigned division of \<^verbatim>\<open>size_t\<close>; \<open>count\<close> is not reset.
\<close>

definition pmf_estimate :: "c_long \<Rightarrow> double_ptr \<Rightarrow> double \<Rightarrow> pmf_locals \<Rightarrow> pmf_locals" where
  "pmf_estimate sz samples v s =
     (let c = count_loop samples v 0 (unat sz) (pmf_count s);
          p' = c div sz;
          q' = 1 - p'
      in s\<lparr>pmf_count := c, pmf_p := p', pmf_q := q'\<rparr>)"

text \<open>
  Lines 26 to 31: the two squaring loops, \<^verbatim>\<open>ncr = combination(number_of_iteraions, iteration)\<close>
  and the store. The second loop compares \<^verbatim>\<open>l\<close> with the unsigned
  \<^verbatim>\<open>sizeof(set) - iteration\<close>. A failure of \<^verbatim>\<open>combination\<close> ends the call.
\<close>

definition pmf_term :: "rounding \<Rightarrow> c_long \<Rightarrow> c_long \<Rightarrow> pmf_locals \<Rightarrow> fault + pmf_locals" where
  "pmf_term rnd sz number_of_iteraions s =
     (let p' = square_times (nat (sint (pmf_iteration s))) (pmf_p s);
          q' = square_times (unat (sz - pmf_iteration s)) (pmf_q s)
      in case combination rnd (sint number_of_iteraions) (sint (pmf_iteration s)) of
           Inl e \<Rightarrow> Inl e
         | Inr c \<Rightarrow>
             (let ncr' = long_of_wide c
              in Inr (store_result (s\<lparr>pmf_ncr := ncr', pmf_p := p', pmf_q := q'\<rparr>)
                        (ncr' * p' * q'))))"

text \<open>The body of the \<^verbatim>\<open>do\<close> loop, lines 9 to 32.\<close>

definition pmf_body ::
  "rounding \<Rightarrow> c_long \<Rightarrow> double_ptr \<Rightarrow> double \<Rightarrow> c_long \<Rightarrow> pmf_locals \<Rightarrow> fault + pmf_locals" where
  "pmf_body rnd sz samples v number_of_iteraions s =
     (if pmf_iteration s = 0 then
        (let q' = 1 - pmf_p s;
             q'' = square_times (unat (sz - pmf_iteration s)) q'
         in Inr (store_result (s\<lparr>pmf_q := q''\<rparr>) (1 * pmf_p s * q'')))
      else if 0 <s pmf_iteration s then
        pmf_term rnd sz number_of_iteraions (pmf_estimate sz samples v s)
      else Inr s)"

text \<open>One trip of the loop: the body, then \<^verbatim>\<open>iteration ++\<close>.\<close>

definition pmf_trip ::
  "rounding \<Rightarrow> c_long \<Rightarrow> double_ptr \<Rightarrow> double \<Rightarrow> c_long \<Rightarrow> pmf_locals \<Rightarrow> fault + pmf_locals" where
  "pmf_trip rnd sz samples v number_of_iteraions s =
     (case pmf_body rnd sz samples v number_of_iteraions s of
        Inl e \<Rightarrow> Inl e
      | Inr s' \<Rightarrow> Inr (s'\<lparr>pmf_iteration := pmf_iteration s' + 1\<rparr>))"

lemma store_result_iteration [simp]:
  "pmf_iteration (store_result s x) = pmf_iteration s"
  by (simp add: store_result_def)

lemma pmf_estimate_iteration [simp]:
  "pmf_iteration (pmf_estimate sz samples v s) = pmf_iteration s"
  by (simp add: pmf_estimate_def Let_def)

lemma pmf_term_iteration:
  "pmf_term rnd sz n s = Inr s' \<Longrightarrow> pmf_iteration s' = pmf_iteration s"
  by (auto simp: pmf_term_def Let_def split: sum.splits)

lemma pmf_body_iteration:
  "pmf_body rnd sz samples v n s = Inr s' \<Longrightarrow> pmf_iteration s' = pmf_iteration s"
  by (auto simp: pmf_body_def Let_def split: if_splits dest!: pmf_term_iteration)

lemma pmf_trip_iteration:
  "pmf_trip rnd sz samples v n s = Inr s' \<Longrightarrow> pmf_iteration s' = pmf_iteration s + 1"
  by (auto simp: pmf_trip_def split: sum.splits dest: pmf_body_iteration)

lemma sint_long_succ:
  fixes x n :: c_long
  assumes "x <s n"
  shows "sint (x + 1) = sint x + 1"
proof -
  have "sint n < 2 ^ 63" using sint_lt [of n] by simp
  moreover have "sint x < sint n" using assms by (simp add: word_sless_alt)
  moreover have "- (2 ^ 63) \<le> sint x" using sint_ge [of x] by simp
  ultimately show ?thesis
    by (simp add: sint_word_ariths signed_take_bit_int_eq_self)
qed

text \<open>
  The loop \<^verbatim>\<open>do { ... } while (iteration < number_of_iteraions);\<close>: the body runs
  before the first test.
\<close>

function pmf_loop ::
  "rounding \<Rightarrow> c_long \<Rightarrow> double_ptr \<Rightarrow> double \<Rightarrow> c_long \<Rightarrow> pmf_locals \<Rightarrow> fault + pmf_locals" where
  "pmf_loop rnd sz samples v number_of_iteraions s =
     (case pmf_trip rnd sz samples v number_of_iteraions s of
        Inl e \<Rightarrow> Inl e
      | Inr s' \<Rightarrow>
          if pmf_iteration s' <s number_of_iteraions
          then pmf_loop rnd sz samples v number_of_iteraions s'
          else Inr s')"
  by pat_completeness auto
termination
proof (relation "measure (\<lambda>(rnd, sz, samples, v, n, s).
         if pmf_iteration s <s n then nat (sint n - sint (pmf_iteration s)) else 2 ^ 64)")
  show "wf (measure (\<lambda>(rnd, sz, samples, v, n, s).
         if pmf_iteration s <s n then nat (sint n - sint (pmf_iteration s)) else 2 ^ 64))"
    by simp
next
  fix rnd :: rounding and sz :: c_long and samples :: double_ptr and v :: double
    and n :: c_long and s s' :: pmf_locals
  assume trip: "pmf_trip rnd sz samples v n s = Inr s'" and cont: "pmf_iteration s' <s n"
  have it: "pmf_iteration s' = pmf_iteration s + 1"
    using trip by (rule pmf_trip_iteration)
  have lt: "sint (pmf_iteration s') < sint n"
    using cont by (simp add: word_sless_alt)
  show "((rnd, sz, samples, v, n, s'), (rnd, sz, samples, v, n, s)) \<in>
          measure (\<lambda>(rnd, sz, samples, v, n, s).
            if pmf_iteration s <s n then nat (sint n - sint (pmf_iteration s)) else 2 ^ 64)"
  proof (cases "pmf_iteration s <s n")
    case True
    then have "sint (pmf_iteration s') = sint (pmf_iteration s) + 1"
      unfolding it by (rule sint_long_succ)
    with True lt cont show ?thesis by simp
  next
    case False
    have "sint n < 2 ^ 63" using sint_lt [of n] by simp
    moreover have "- (2 ^ 63) \<le> sint (pmf_iteration s')"
      using sint_ge [of "pmf_iteration s'"] by simp
    ultimately have "nat (sint n - sint (pmf_iteration s')) < 2 ^ 64"
      by simp
    with False cont show ?thesis by simp
  qed
qed

declare pmf_loop.simps [simp del]

text \<open>
  \<^verbatim>\<open>pmf\<close>: the locals are initialised and the loop runs. \<open>pmf_run\<close> gives the locals at
  the statement \<^verbatim>\<open>return result;\<close> and \<open>result_at_return\<close> the \<^verbatim>\<open>sizeof(set)\<close> cells of
  the array \<^verbatim>\<open>result\<close> at that statement.
\<close>

definition pmf_init :: pmf_locals where
  "pmf_init =
     \<lparr>pmf_count = 0, pmf_ncr = 1, pmf_p = 1, pmf_q = 0, pmf_iteration = 0,
      pmf_result = (\<lambda>i. None)\<rparr>"

definition pmf_run ::
  "rounding \<Rightarrow> c_long \<Rightarrow> double_ptr \<Rightarrow> double \<Rightarrow> c_long \<Rightarrow> fault + pmf_locals" where
  "pmf_run rnd sz samples value_to_search_for number_of_iteraions =
     pmf_loop rnd sz samples value_to_search_for number_of_iteraions pmf_init"

definition result_at_return ::
  "rounding \<Rightarrow> c_long \<Rightarrow> double_ptr \<Rightarrow> double \<Rightarrow> c_long \<Rightarrow> fault + double option list" where
  "result_at_return rnd sz samples value_to_search_for number_of_iteraions =
     (case pmf_run rnd sz samples value_to_search_for number_of_iteraions of
        Inl e \<Rightarrow> Inl e
      | Inr s \<Rightarrow> Inr (map (pmf_result s) [0 ..< unat sz]))"

text \<open>
  The value of the call is the pointer that \<^verbatim>\<open>return result;\<close> yields. \<^verbatim>\<open>result\<close> is an
  automatic array of \<^verbatim>\<open>pmf\<close>, so its lifetime ends with the call and the caller receives
  a pointer to an array that no longer exists. A pointer to an array of doubles is
  either \<open>Live\<close> with the cells of its array or \<open>Dead\<close>; \<open>element p i\<close> is the double that
  \<^verbatim>\<open>p[i]\<close> reads, \<open>None\<close> where there is no such double.
\<close>

datatype array_ptr = Live "nat \<Rightarrow> double option" | Dead


definition pmf ::
  "rounding \<Rightarrow> c_long \<Rightarrow> double_ptr \<Rightarrow> double \<Rightarrow> c_long \<Rightarrow> fault + array_ptr" where
  "pmf rnd sz samples value_to_search_for number_of_iteraions =
     (case pmf_run rnd sz samples value_to_search_for number_of_iteraions of
        Inl e \<Rightarrow> Inl e
      | Inr s \<Rightarrow> Inr Dead)"

text \<open>
  \<^verbatim>\<open>mean\<close>: the count loop, \<^verbatim>\<open>p = count/sizeof(set)\<close> (an unsigned quotient stored in a
  \<^verbatim>\<open>double\<close>), and \<^verbatim>\<open>return mean\<close>, where \<^verbatim>\<open>mean\<close> still holds its initial 0.
  \<open>mean_run\<close> gives the locals at the return statement.
\<close>

record mean_locals =
  mean_count :: c_long
  mean_p :: double
  mean_mean :: double

definition mean_run :: "c_long \<Rightarrow> double_ptr \<Rightarrow> double \<Rightarrow> c_long \<Rightarrow> mean_locals" where
  "mean_run sz samples value_to_search_for n =
     (let c = count_loop samples value_to_search_for 0 (unat sz) 0
      in \<lparr>mean_count = c, mean_p = double_of_size (c div sz), mean_mean = Finite 0\<rparr>)"

definition mean :: "c_long \<Rightarrow> double_ptr \<Rightarrow> double \<Rightarrow> c_long \<Rightarrow> double" where
  "mean sz samples value_to_search_for n = mean_mean (mean_run sz samples value_to_search_for n)"

text \<open>
  Three notions used to state the properties of the two routines. None is a routine of the
  source. \<open>examined_matches\<close> is the number of matches among the \<^verbatim>\<open>sizeof(set)\<close> doubles
  that the count loop examines; \<open>pmf_trips k\<close> are the locals of \<^verbatim>\<open>pmf\<close> after \<open>k\<close> trips of
  its loop, that is at the head of trip \<open>k\<close> counted from 0; \<open>pmf_p_at k\<close> is the value that
  line 23 assigns to \<open>p\<close> in trip \<open>k\<close>.
\<close>

definition examined_matches :: "c_long \<Rightarrow> double_ptr \<Rightarrow> double \<Rightarrow> nat" where
  "examined_matches sz samples v =
     length (filter (\<lambda>l. double_eq (samples l) v) [0 ..< unat sz])"

fun pmf_trips ::
  "rounding \<Rightarrow> nat \<Rightarrow> c_long \<Rightarrow> double_ptr \<Rightarrow> double \<Rightarrow> c_long \<Rightarrow> fault + pmf_locals" where
  "pmf_trips rnd 0 sz samples v n = Inr pmf_init"
| "pmf_trips rnd (Suc k) sz samples v n =
     (case pmf_trips rnd k sz samples v n of
        Inl e \<Rightarrow> Inl e
      | Inr s \<Rightarrow> pmf_trip rnd sz samples v n s)"

definition pmf_p_at ::
  "rounding \<Rightarrow> nat \<Rightarrow> c_long \<Rightarrow> double_ptr \<Rightarrow> double \<Rightarrow> c_long \<Rightarrow> fault + c_long" where
  "pmf_p_at rnd k sz samples v n =
     (case pmf_trips rnd k sz samples v n of
        Inl e \<Rightarrow> Inl e
      | Inr s \<Rightarrow> Inr (pmf_p (pmf_estimate sz samples v s)))"

section \<open>Properties of the number theory routines\<close>

subsection \<open>Factorials\<close>

lemma factorial_fold: "fold (\<lambda>i acc. acc * int i) [Suc 0 ..< Suc n] 1 = int (fact n)"
  by (induction n) (simp_all add: algebra_simps)

lemma fits_wide_iff: "fits_wide x \<longleftrightarrow> x < 2 ^ 8192"
proof -
  from bitlen_le_iff_power [of x 8192]
  have "bitlen x \<le> 8192 \<longleftrightarrow> x < 2 ^ nat 8192"
    by (simp only: zero_le_numeral simp_thms)
  then show ?thesis by (simp only: fits_wide_def nat_numeral)
qed

lemma fits_wide_fact_mono:
  assumes "m \<le> n" and "fits_wide (fact n)"
  shows "fits_wide (fact m)"
proof -
  have "(fact m :: int) \<le> fact n" using assms(1) by (rule fact_mono)
  also have "\<dots> < 2 ^ 8192" using assms(2) by (simp only: fits_wide_iff)
  finally show ?thesis by (simp only: fits_wide_iff)
qed

lemma factorial_neg: "n < 0 \<Longrightarrow> factorial n = Inl InvalidRange"
  by (simp add: factorial_def)

lemma factorial_value:
  "0 \<le> n \<Longrightarrow> fits_wide (fact (nat n)) \<Longrightarrow> factorial n = Inr (fact (nat n))"
  by (simp add: factorial_def factorial_fold del: upt_Suc)

lemma factorial_overflow:
  "0 \<le> n \<Longrightarrow> \<not> fits_wide (fact (nat n)) \<Longrightarrow> factorial n = Inl Overflow"
  by (simp add: factorial_def factorial_fold del: upt_Suc)

lemma fact_lower_bound: "m \<le> n \<Longrightarrow> m ^ (n - m) \<le> (fact n :: nat)"
proof (induction n)
  case 0
  then show ?case by simp
next
  case (Suc n)
  show ?case
  proof (cases "m = Suc n")
    case True
    have "(1 :: nat) \<le> fact (Suc n)" by (rule fact_ge_1)
    with True show ?thesis by simp
  next
    case False
    with Suc.prems have le: "m \<le> n" by simp
    then have "m ^ (Suc n - m) = m * m ^ (n - m)" by (simp add: Suc_diff_le)
    also have "\<dots> \<le> Suc n * fact n"
      using le Suc.IH [OF le] by (intro mult_mono) simp_all
    finally show ?thesis by simp
  qed
qed

lemma fact_2000_overflows: "\<not> fits_wide (fact 2000)"
proof -
  have a: "(2 :: nat) ^ 9 = 512" by simp
  have b: "(2000 :: nat) - 512 = 1488" by simp
  have "(2 :: nat) ^ 8192 \<le> 2 ^ (9 * 1488)" by (rule power_increasing) simp_all
  also have "\<dots> = (2 ^ 9) ^ 1488" by (rule power_mult)
  also have "\<dots> = 512 ^ (2000 - 512)" by (simp only: a b)
  also have "\<dots> \<le> fact 2000" by (rule fact_lower_bound) simp
  finally have "(2 :: nat) ^ 8192 \<le> fact 2000" .
  then have "int (2 ^ 8192) \<le> int (fact 2000)" by (simp only: of_nat_le_iff)
  then have "(2 :: int) ^ 8192 \<le> fact 2000"
    by (simp only: of_nat_power of_nat_numeral of_nat_fact)
  then show ?thesis by (simp only: fits_wide_iff not_less)
qed

lemma fits_wide_small: "n \<le> 20 \<Longrightarrow> fits_wide (fact n)"
proof -
  assume "n \<le> 20"
  then have "(fact n :: int) \<le> fact 20" by (rule fact_mono)
  also have "\<dots> < 2 ^ 64" by (simp add: fact_numeral)
  also have "\<dots> \<le> 2 ^ 8192" by (rule power_increasing) simp_all
  finally show ?thesis by (simp only: fits_wide_iff)
qed

lemma fits_wide_small_int: "n \<le> 20 \<Longrightarrow> fits_wide (fact (nat n))"
  by (rule fits_wide_small) simp

lemma combination_value:
  assumes "0 \<le> r" and "r \<le> n" and "fits_wide (fact (nat n))"
  shows "combination rnd n r =
       Inr (rnd (rnd (of_int (fact (nat n)))
                 / rnd (rnd (of_int (fact (nat (n - r)))) * rnd (of_int (fact (nat r))))))"
proof -
  have "fits_wide (fact (nat (n - r)))" and "fits_wide (fact (nat r))"
    using assms by (auto intro: fits_wide_fact_mono [of _ "nat n"])
  with assms show ?thesis
    by (simp add: combination_def factorial_value)
qed

lemma combination_overflow:
  assumes "0 \<le> n" and "\<not> fits_wide (fact (nat n))"
  shows "combination rnd n r = Inl Overflow"
  using assms by (simp add: combination_def factorial_overflow)

lemma permutation_value:
  assumes "0 \<le> n" and "r \<le> 0" and "fits_wide (fact (nat (n - r)))"
  shows "permutation rnd n r =
       Inr (rnd (rnd (of_int (fact (nat n))) / rnd (of_int (fact (nat (n - r))))))"
proof -
  have "fits_wide (fact (nat n))"
    using assms by (auto intro: fits_wide_fact_mono [of _ "nat (n - r)"])
  with assms show ?thesis
    by (simp add: permutation_def factorial_value)
qed

subsection \<open>Binomial coefficients\<close>

text \<open>
  Claim C4, as stated: for every \<open>0 \<le> r \<le> n\<close>, \<open>combination(n, 0)\<close> and
  \<open>combination(n, n)\<close> are 1. The routine computes \<open>n!\<close> first, and the factorial fails
  with \<open>Overflow\<close> when \<open>n!\<close> exceeds the 8192 bits of the wide type: at \<open>n = 2000\<close>,
  \<open>combination(n, 0)\<close> is that failure.
\<close>

theorem combination_overflow_counterexample: "combination exact 2000 0 = Inl Overflow"
  using combination_overflow [of 2000 exact 0] fact_2000_overflows by simp

text \<open>
  Claim C4, amended. For every pair of integers with \<open>0 \<le> r \<le> n\<close>, \<open>combination(n, r)\<close>
  equals \<open>combination(n, n - r)\<close>. When \<open>n!\<close> fits the 8192 bits of the wide type,
  \<open>combination(n, r)\<close> returns a value and \<open>combination(n, 0)\<close> and \<open>combination(n, n)\<close>
  are 1; otherwise \<open>combination(n, r)\<close> fails with \<open>Overflow\<close>. The rounding of the wide
  type may be any function that keeps 1, rounds a rounded value to itself and keeps a
  value of at least 1 at least 1.
\<close>

theorem combination_symmetric:
  assumes "0 \<le> r" and "r \<le> n"
    and "rnd 1 = 1" and "\<And>x. rnd (rnd x) = rnd x" and "\<And>x. 1 \<le> x \<Longrightarrow> 1 \<le> rnd x"
  shows "combination rnd n r = combination rnd n (n - r)
       \<and> (fits_wide (fact (nat n)) \<longrightarrow>
            (\<exists>c. combination rnd n r = Inr c)
            \<and> combination rnd n 0 = Inr 1
            \<and> combination rnd n n = Inr 1)
       \<and> (\<not> fits_wide (fact (nat n)) \<longrightarrow> combination rnd n r = Inl Overflow)"
proof (cases "fits_wide (fact (nat n))")
  case True
  define a where "a = rnd (of_int (fact (nat n)))"
  have "(1 :: rat) \<le> of_int (fact (nat n))"
    by (simp add: fact_ge_1)
  then have "1 \<le> a" unfolding a_def by (rule assms(5))
  then have a0: "a \<noteq> 0" by simp
  have aa: "rnd a = a" unfolding a_def by (rule assms(4))
  have n0: "0 \<le> n" using assms by simp
  have sym: "combination rnd n r = combination rnd n (n - r)"
    using assms(1,2) True by (simp add: combination_value mult.commute)
  have one: "rnd (a / rnd (a * rnd 1)) = 1" "rnd (a / rnd (rnd 1 * a)) = 1"
    using a0 by (simp_all add: assms(3) aa)
  have "combination rnd n 0 = Inr (rnd (a / rnd (a * rnd 1)))"
    using combination_value [of 0 n rnd] n0 True by (simp add: a_def)
  then have zero: "combination rnd n 0 = Inr 1" by (simp only: one)
  have "combination rnd n n = Inr (rnd (a / rnd (rnd 1 * a)))"
    using combination_value [of n n rnd] n0 True by (simp add: a_def)
  then have full: "combination rnd n n = Inr 1" by (simp only: one)
  have "\<exists>c. combination rnd n r = Inr c"
    using assms(1,2) True by (simp add: combination_value)
  with sym zero full True show ?thesis by simp
next
  case False
  have n0: "0 \<le> n" using assms by simp
  have "combination rnd n r = Inl Overflow" and "combination rnd n (n - r) = Inl Overflow"
    using n0 False by (simp_all add: combination_overflow)
  with False show ?thesis by simp
qed

theorem combination_symmetric_witness:
  "(0 :: int) \<le> 2 \<and> (2 :: int) \<le> 5 \<and> exact 1 = 1 \<and> fits_wide (fact (nat 5))
   \<and> combination exact 5 2 = combination exact 5 (5 - 2) \<and> combination exact 5 2 = Inr 10
   \<and> combination exact 5 0 = Inr 1 \<and> combination exact 5 5 = Inr 1"
proof -
  have f: "fits_wide (fact (nat 5))" by (rule fits_wide_small_int) simp
  have v: "combination exact 5 2 = Inr 10"
    using f by (simp add: combination_value exact_def fact_numeral)
  from combination_symmetric [of 2 5 exact] f v show ?thesis
    by (simp add: exact_def)
qed

text \<open>
  Claim C7, as stated: every \<open>(n, r)\<close> with \<open>r < 0\<close> or \<open>r > n\<close> makes \<open>combination\<close> and
  \<open>permutation\<close> fail with \<open>InvalidRange\<close>. Neither routine checks its range:
  \<open>permutation\<close> never evaluates \<open>factorial(r)\<close> and returns \<open>3! / 4!\<close> at \<open>n = 3\<close>,
  \<open>r = -1\<close>; and at \<open>n = 2000\<close>, \<open>r = 2001\<close> the factorial of \<open>n\<close>, evaluated first,
  fails with \<open>Overflow\<close>.
\<close>

theorem permutation_negative_r_counterexample:
  "permutation exact 3 (- 1) = Inr (1 / 4) \<and> combination exact 2000 2001 = Inl Overflow"
proof -
  have "fits_wide (fact (nat (3 - - 1)))" by (rule fits_wide_small_int) simp
  then have "permutation exact 3 (- 1) = Inr (1 / 4)"
    by (simp add: permutation_value exact_def fact_numeral)
  moreover have "combination exact 2000 2001 = Inl Overflow"
    using combination_overflow [of 2000 exact 2001] fact_2000_overflows by simp
  ultimately show ?thesis by simp
qed

text \<open>
  Claim C7, amended. Let \<open>r < 0\<close> or \<open>r > n\<close>. Both routines fail with \<open>InvalidRange\<close>
  when \<open>n < 0\<close>, and when \<open>r > n \<ge> 0\<close> and \<open>n!\<close> fits the 8192 bits of the wide type.
  When \<open>r < 0 \<le> n\<close> and \<open>(n - r)!\<close> fits, \<open>combination\<close> fails with \<open>InvalidRange\<close> and
  \<open>permutation\<close> returns the rounded quotient of \<open>n!\<close> by \<open>(n - r)!\<close>. In the remaining
  cases, where \<open>n!\<close> or \<open>(n - r)!\<close> does not fit, both fail with \<open>Overflow\<close>.
\<close>

theorem range_failures:
  "(n < 0 \<longrightarrow>
      combination rnd n r = Inl InvalidRange \<and> permutation rnd n r = Inl InvalidRange)
   \<and> (0 \<le> n \<and> n < r \<and> fits_wide (fact (nat n)) \<longrightarrow>
      combination rnd n r = Inl InvalidRange \<and> permutation rnd n r = Inl InvalidRange)
   \<and> (0 \<le> n \<and> r < 0 \<and> fits_wide (fact (nat (n - r))) \<longrightarrow>
      combination rnd n r = Inl InvalidRange
      \<and> permutation rnd n r =
          Inr (rnd (rnd (of_int (fact (nat n))) / rnd (of_int (fact (nat (n - r)))))))
   \<and> (0 \<le> n \<and> \<not> fits_wide (fact (nat n)) \<longrightarrow>
      combination rnd n r = Inl Overflow \<and> permutation rnd n r = Inl Overflow)
   \<and> (0 \<le> n \<and> r < 0 \<and> fits_wide (fact (nat n)) \<and> \<not> fits_wide (fact (nat (n - r))) \<longrightarrow>
      combination rnd n r = Inl Overflow \<and> permutation rnd n r = Inl Overflow)"
proof -
  have neg: "combination rnd n r = Inl InvalidRange \<and> permutation rnd n r = Inl InvalidRange"
    if "n < 0"
    using that by (simp add: combination_def permutation_def factorial_neg)
  have above: "combination rnd n r = Inl InvalidRange \<and> permutation rnd n r = Inl InvalidRange"
    if "0 \<le> n \<and> n < r \<and> fits_wide (fact (nat n))"
    using that by (simp add: combination_def permutation_def factorial_value factorial_neg)
  have below: "combination rnd n r = Inl InvalidRange
      \<and> permutation rnd n r =
          Inr (rnd (rnd (of_int (fact (nat n))) / rnd (of_int (fact (nat (n - r))))))"
    if h: "0 \<le> n \<and> r < 0 \<and> fits_wide (fact (nat (n - r)))"
  proof -
    have "fits_wide (fact (nat n))"
      using h by (auto intro: fits_wide_fact_mono [of _ "nat (n - r)"])
    with h have "combination rnd n r = Inl InvalidRange"
      by (simp add: combination_def factorial_value factorial_neg)
    moreover from h have "permutation rnd n r =
          Inr (rnd (rnd (of_int (fact (nat n))) / rnd (of_int (fact (nat (n - r))))))"
      by (simp add: permutation_value)
    ultimately show ?thesis by simp
  qed
  have big: "combination rnd n r = Inl Overflow \<and> permutation rnd n r = Inl Overflow"
    if "0 \<le> n \<and> \<not> fits_wide (fact (nat n))"
    using that by (simp add: combination_def permutation_def factorial_overflow)
  have big': "combination rnd n r = Inl Overflow \<and> permutation rnd n r = Inl Overflow"
    if "0 \<le> n \<and> r < 0 \<and> fits_wide (fact (nat n)) \<and> \<not> fits_wide (fact (nat (n - r)))"
    using that
    by (simp add: combination_def permutation_def factorial_value factorial_overflow)
  from neg above below big big' show ?thesis by blast
qed

theorem range_failures_witness:
  "combination exact (- 1) (- 5) = Inl InvalidRange
   \<and> permutation exact (- 1) (- 5) = Inl InvalidRange
   \<and> (0 :: int) \<le> 2 \<and> (2 :: int) < 3 \<and> fits_wide (fact (nat 2))
   \<and> combination exact 2 3 = Inl InvalidRange \<and> permutation exact 2 3 = Inl InvalidRange
   \<and> (- 1 :: int) < 0 \<and> fits_wide (fact (nat (1 - - 1)))
   \<and> combination exact 1 (- 1) = Inl InvalidRange
   \<and> permutation exact 1 (- 1) = Inr (1 / 2)
   \<and> \<not> fits_wide (fact (nat 2000))
   \<and> combination exact 2000 (- 1) = Inl Overflow \<and> permutation exact 2000 (- 1) = Inl Overflow"
proof -
  have f: "fits_wide (fact (nat 2))" "fits_wide (fact (nat (1 - - 1)))" "fits_wide (fact (nat 1))"
    using fits_wide_small_int [of 2] fits_wide_small_int [of 1] by simp_all
  have g: "\<not> fits_wide (fact (nat 2000))" using fact_2000_overflows by simp
  have small: "combination exact (- 1) (- 5) = Inl InvalidRange
   \<and> permutation exact (- 1) (- 5) = Inl InvalidRange
   \<and> combination exact 2 3 = Inl InvalidRange \<and> permutation exact 2 3 = Inl InvalidRange
   \<and> combination exact 1 (- 1) = Inl InvalidRange
   \<and> permutation exact 1 (- 1) = Inr (1 / 2)"
    using range_failures [of "- 1" exact "- 5"] range_failures [of 2 exact 3]
      range_failures [of 1 exact "- 1"] f
    by (simp add: exact_def fact_numeral)
  have big: "combination exact 2000 (- 1) = Inl Overflow
      \<and> permutation exact 2000 (- 1) = Inl Overflow"
    using range_failures [of 2000 exact "- 1"] g by simp
  from small big f g show ?thesis by simp
qed

subsection \<open>The Gauss sum\<close>

text \<open>
  Claim C5, as stated: \<open>gauss_sum(n) = n(n+1)/2\<close> for every \<open>n \<ge> 0\<close>. The product is
  an \<^verbatim>\<open>int\<close> product: at \<open>n = 46341\<close> it exceeds \<open>2^31 - 1\<close>, wraps around, and the
  result is negative.
\<close>

theorem gauss_sum_overflow_counterexample:
  "gauss_sum 46341 = Finite (- 1073716337)
   \<and> gauss_sum 46341 \<noteq> Finite (of_int ((46341 * (46341 + 1)) div 2))"
  by (simp add: gauss_sum_def int_div_def double_of_int_def signed_divide_int_def)

lemma gauss_product_bound:
  fixes x :: int
  assumes "0 \<le> x" and "x \<le> 46340"
  shows "0 \<le> x * (x + 1)" and "x * (x + 1) < 2 ^ 31"
proof -
  show "0 \<le> x * (x + 1)" using assms by simp
  have "x * (x + 1) \<le> 46340 * (46340 + 1)"
    using assms by (intro mult_mono) simp_all
  then show "x * (x + 1) < 2 ^ 31" by simp
qed

text \<open>
  Claim C5, amended. For \<open>0 \<le> n \<le> 46340\<close>, the range in which \<open>n(n+1)\<close> fits an
  \<^verbatim>\<open>int\<close>, \<open>gauss_sum(n)\<close> is \<open>n(n+1)/2\<close>, which is the sum \<open>0 + 1 + ... + n\<close>.
\<close>

theorem gauss_sum_in_range:
  assumes "0 \<le> sint n" and "sint n \<le> 46340"
  shows "gauss_sum n = Finite (of_int ((sint n * (sint n + 1)) div 2))
       \<and> gauss_sum n = Finite (of_nat (\<Sum> {0 .. nat (sint n)}))"
proof -
  define x where "x = sint n"
  have x: "0 \<le> x" "x \<le> 46340" using assms by (simp_all add: x_def)
  note b = gauss_product_bound [OF x]
  have s1: "sint (n + 1) = x + 1"
    using x by (simp add: sint_word_ariths signed_take_bit_int_eq_self x_def [symmetric])
  have t: "signed_take_bit 31 (x * (x + 1)) = x * (x + 1)"
  proof (rule signed_take_bit_int_eq_self)
    have "- (2 ^ 31) \<le> (0 :: int)" by simp
    then show "- (2 ^ 31) \<le> x * (x + 1)" using b(1) by (rule order_trans)
    show "x * (x + 1) < 2 ^ 31" by (rule b(2))
  qed
  have "sint (n * (n + 1)) = signed_take_bit (LENGTH(32) - 1) (sint n * sint (n + 1))"
    by (rule sint_word_ariths)
  then have s2: "sint (n * (n + 1)) = x * (x + 1)"
    by (simp add: s1 t x_def [symmetric])
  have d: "(x * (x + 1)) sdiv 2 = (x * (x + 1)) div 2"
    using b by (simp add: signed_divide_int_def sgn_if)
  have r: "0 \<le> (x * (x + 1)) div 2" "(x * (x + 1)) div 2 < 2 ^ 31"
    using b by simp_all
  have s3: "sint (int_div (n * (n + 1)) 2) = (x * (x + 1)) div 2"
    using r by (simp add: int_div_def s2 d signed_of_int signed_take_bit_int_eq_self)
  have g: "gauss_sum n = Finite (of_int ((x * (x + 1)) div 2))"
    by (simp add: gauss_sum_def double_of_int_def s3)
  have "int (\<Sum> {0 .. nat x}) = (x * (x + 1)) div 2"
    using x by (simp add: gauss_sum_nat algebra_simps zdiv_int nat_mult_distrib)
  then have "(of_nat (\<Sum> {0 .. nat x}) :: rat) = of_int ((x * (x + 1)) div 2)"
    by (metis of_int_of_nat_eq)
  with g show ?thesis by (simp add: x_def)
qed

theorem gauss_sum_in_range_witness:
  "0 \<le> sint (5 :: c_int) \<and> sint (5 :: c_int) \<le> 46340 \<and> gauss_sum 5 = Finite 15"
  using gauss_sum_in_range [of 5] by simp

subsection \<open>The division loop\<close>

lemma quotient_17_5:
  "double_div (Finite 17) (Finite 5) = Finite (7656119366529843 / 2251799813685248)"
  by code_simp

lemma quotient_17_quotient:
  "double_div (Finite 17) (Finite (7656119366529843 / 2251799813685248)) = Finite 5"
  by code_simp

lemma difference_17_5: "double_sub (Finite 17) (Finite 5) = Finite 12"
  by code_simp

text \<open>
  Claim C2: \<open>divisibility_theorem(a, b, K)\<close> returns \<open>(q, r)\<close> with \<open>a = q*b + r\<close> and
  \<open>0 \<le> r < |b|\<close>, and \<open>divisibility_theorem(17, 5, 10) = (3, 2)\<close>. The loop of the source
  divides \<open>a\<close> by the quotient of the round before: on \<open>(17, 5, 10)\<close> the quotients are in
  turn the double nearest to \<open>17/5\<close> and 5, and the routine returns \<open>(5, 12)\<close>.
\<close>

theorem divisibility_17_5_10:
  "divisibility_theorem (Finite 17) (Finite 5) 10 = (Finite 5, Finite 12)"
  by (simp add: divisibility_theorem_def eval_nat_numeral Let_def
      quotient_17_5 quotient_17_quotient difference_17_5)

text \<open>
  The quotients are rounded, so dividing \<open>a\<close> by \<open>a/b\<close> need not give \<open>b\<close> back: on
  \<open>(1, 49, 2)\<close> the second quotient is the double after 49.
\<close>

lemma divisibility_1_49_2:
  "divisibility_theorem (Finite 1) (Finite 49) 2 =
     (Finite (49 + 1 / 2 ^ 47), Finite (- 48 - 1 / 2 ^ 47))"
  by code_simp





section \<open>Properties of the distribution routines\<close>

subsection \<open>The count loop and the conversions\<close>

lemma count_loop_value:
  "count_loop samples v l k c =
     c + of_nat (length (filter (\<lambda>i. double_eq (samples i) v) [l ..< l + k]))"
proof (induction k arbitrary: l c)
  case 0
  then show ?case by simp
next
  case (Suc k)
  have "[l ..< l + Suc k] = l # [Suc l ..< Suc l + k]"
    by (simp add: upt_conv_Cons)
  with Suc.IH [of "Suc l"] show ?case by simp
qed

lemma count_loop_run:
  "count_loop samples v 0 (unat sz) c = c + of_nat (examined_matches sz samples v)"
  by (simp add: count_loop_value examined_matches_def)

lemma examined_matches_le: "examined_matches sz samples v \<le> unat sz"
proof -
  have "examined_matches sz samples v \<le> length [0 ..< unat sz]"
    unfolding examined_matches_def by (rule length_filter_le)
  then show ?thesis by simp
qed

lemma binary64_zero: "binary64 0 = Finite 0"
  by (simp add: binary64_def)

lemma binary64_one: "binary64 1 = Finite 1"
  by code_simp


subsection \<open>The mean\<close>

lemma mean_run_p:
  "mean_p (mean_run sz samples v n) =
     Finite (of_nat (examined_matches sz samples v div unat sz))"
proof -
  define m where "m = examined_matches sz samples v"
  have sz: "unat sz < 2 ^ 64" using unsigned_less [of sz, where 'a = nat] by simp
  with examined_matches_le [of sz samples v] have "m < 2 ^ 64" by (simp add: m_def)
  then have u: "unat (of_nat m :: c_long) = m" by (simp add: unat_of_nat)
  have q: "uint ((of_nat m :: c_long) div sz) = int (m div unat sz)"
    by (simp add: uint_nat unat_div u)
  have "m div unat sz \<le> 1"
  proof (cases "unat sz = 0")
    case True
    then show ?thesis by simp
  next
    case False
    have "m div unat sz \<le> unat sz div unat sz"
      using examined_matches_le [of sz samples v] unfolding m_def by (rule div_le_mono)
    with False show ?thesis by simp
  qed
  then have "m div unat sz = 0 \<or> m div unat sz = 1" by auto
  then have b: "binary64 (of_int (int (m div unat sz))) = Finite (of_nat (m div unat sz))"
    by (auto simp: binary64_zero binary64_one)
  have "mean_p (mean_run sz samples v n) =
      binary64 (of_int (uint ((of_nat m :: c_long) div sz)))"
    by (simp add: mean_run_def Let_def count_loop_run double_of_size_def m_def)
  also have "\<dots> = binary64 (of_int (int (m div unat sz)))" by (simp only: q)
  also have "\<dots> = Finite (of_nat (m div unat sz))" by (rule b)
  finally show ?thesis by (simp only: m_def)
qed

text \<open>
  Claim C8. \<^verbatim>\<open>mean\<close> returns 0 whatever the samples, the target value and the trial count
  are: it returns the local \<^verbatim>\<open>mean\<close>, which is never assigned after its initialisation.
  The quotient of the match count by \<^verbatim>\<open>sizeof(set)\<close> is stored in \<open>p\<close> and not used.
\<close>

theorem mean_returns_zero:
  "mean sz samples v n = Finite 0
   \<and> mean_p (mean_run sz samples v n) =
       Finite (of_nat (examined_matches sz samples v div unat sz))"
  by (simp add: mean_run_p) (simp add: mean_def mean_run_def Let_def)

theorem mean_returns_zero_witness:
  "mean 8 (array_then [Finite 1, Finite 0, Finite 1, Finite 1, Finite 0] (\<lambda>i. Finite 1)) (Finite 1) 4 = Finite 0
   \<and> mean_p (mean_run 8 (array_then [Finite 1, Finite 0, Finite 1, Finite 1, Finite 0] (\<lambda>i. Finite 1)) (Finite 1) 4) = Finite 0"
proof -
  have "examined_matches 8 (array_then [Finite 1, Finite 0, Finite 1, Finite 1, Finite 0] (\<lambda>i. Finite 1)) (Finite 1) = 6"
    by code_simp
  with mean_returns_zero [of 8 "array_then [Finite 1, Finite 0, Finite 1, Finite 1, Finite 0] (\<lambda>i. Finite 1)" "Finite 1" 4]
  show ?thesis by simp
qed

text \<open>
  Claim C3: \<open>binomial_mean\<close> returns \<open>trial_count * p\<close>, 2.4 on ten samples of which six
  are 1, with target 1 and 4 trials (the spec's five samples, twice, so that the eight
  examined ones lie in the array). The routine returns 0, whatever follows the array.
\<close>

theorem mean_on_spec_example:
  "mean 8 (array_then [Finite 1, Finite 0, Finite 1, Finite 1, Finite 0, Finite 1, Finite 0, Finite 1, Finite 1, Finite 0] rest) (Finite 1) 4 = Finite 0"
  by (simp add: mean_def mean_run_def Let_def)

subsection \<open>Entry 0 of the probability mass function\<close>












text \<open>
  Claim C1: \<open>binomial_pmf\<close> estimates \<open>p\<close> as the fraction of matching samples and returns
  \<open>C(n, k) * p^k * (1-p)^(n-k)\<close> for each \<open>k\<close>; with \<open>p = 0.6\<close> and 4 trials the entries
  are 0.0256, ..., 0.1296 and sum to 1. On ten samples of which six are 1 (the spec's five
  samples, twice), target 1 and 4 trials, the array \<^verbatim>\<open>result\<close> holds four entries 0 at the
  return statement and its other four cells are unwritten; the pointer returned is to
  that array.
\<close>

theorem pmf_on_spec_example:
  "result_at_return exact 8
     (array_then [Finite 1, Finite 0, Finite 1, Finite 1, Finite 0, Finite 1, Finite 0, Finite 1, Finite 1, Finite 0] (\<lambda>i. NaN))
     (Finite 1) 4
   = Inr [Some (Finite 0), Some (Finite 0), Some (Finite 0), Some (Finite 0),
          None, None, None, None]
   \<and> pmf exact 8
     (array_then [Finite 1, Finite 0, Finite 1, Finite 1, Finite 0, Finite 1, Finite 0, Finite 1, Finite 1, Finite 0] (\<lambda>i. NaN))
     (Finite 1) 4
   = Inr Dead"
proof -
  have r: "result_at_return exact 8
     (array_then [Finite 1, Finite 0, Finite 1, Finite 1, Finite 0, Finite 1, Finite 0, Finite 1, Finite 1, Finite 0] (\<lambda>i. NaN))
     (Finite 1) 4
   = Inr [Some (Finite 0), Some (Finite 0), Some (Finite 0), Some (Finite 0),
          None, None, None, None]"
    by code_simp
  then obtain s where "pmf_run exact 8
     (array_then [Finite 1, Finite 0, Finite 1, Finite 1, Finite 0, Finite 1, Finite 0, Finite 1, Finite 1, Finite 0] (\<lambda>i. NaN))
     (Finite 1) 4 = Inr s"
    by (auto simp: result_at_return_def split: sum.splits)
  then have "pmf exact 8
     (array_then [Finite 1, Finite 0, Finite 1, Finite 1, Finite 0, Finite 1, Finite 0, Finite 1, Finite 1, Finite 0] (\<lambda>i. NaN))
     (Finite 1) 4 = Inr Dead"
    by (simp add: pmf_def)
  with r show ?thesis by simp
qed

subsection \<open>The estimate of \<open>p\<close>\<close>

lemma of_nat_long_sint:
  fixes n :: c_long
  assumes "int k < sint n"
  shows "sint (of_nat k :: c_long) = int k"
proof -
  have "sint n < 2 ^ 63" using sint_lt [of n] by simp
  with assms have "int k < 2 ^ 63" by simp
  then show ?thesis
    by (simp add: signed_of_nat signed_take_bit_int_eq_self)
qed

lemma pmf_trips_state:
  assumes "int k < sint n \<or> k = 0"
  shows "pmf_trips rnd k sz samples v n = Inr s \<Longrightarrow>
           pmf_iteration s = of_nat k
           \<and> pmf_count s = of_nat ((k - 1) * examined_matches sz samples v)"
  using assms
proof (induction k arbitrary: s)
  case 0
  then show ?case by (auto simp: pmf_init_def)
next
  case (Suc k)
  from Suc.prems(1) obtain s0 where
    t0: "pmf_trips rnd k sz samples v n = Inr s0" and t1: "pmf_trip rnd sz samples v n s0 = Inr s"
    by (auto split: sum.splits)
  from Suc.prems(2) have kn: "int k < sint n" by simp
  with Suc.IH [OF t0] have it0: "pmf_iteration s0 = of_nat k"
    and c0: "pmf_count s0 = of_nat ((k - 1) * examined_matches sz samples v)" by simp_all
  have it: "pmf_iteration s = of_nat (Suc k)"
    using pmf_trip_iteration [OF t1] it0 by simp
  have "pmf_count s = of_nat (k * examined_matches sz samples v)"
  proof (cases k)
    case 0
    with t1 it0 c0 show ?thesis
      by (auto simp: pmf_trip_def pmf_body_def store_result_def Let_def)
  next
    case (Suc j)
    have sk: "sint (of_nat k :: c_long) = int k" using kn by (rule of_nat_long_sint)
    with Suc have pos: "0 <s pmf_iteration s0" and nz: "pmf_iteration s0 \<noteq> 0"
      by (auto simp: it0 word_sless_alt)
    from t1 pos nz obtain s2 where
      t: "pmf_term rnd sz n (pmf_estimate sz samples v s0) = Inr s2"
      and s: "s = s2\<lparr>pmf_iteration := pmf_iteration s2 + 1\<rparr>"
      by (auto simp: pmf_trip_def pmf_body_def split: sum.splits)
    have "pmf_count (pmf_estimate sz samples v s0) =
        pmf_count s0 + of_nat (examined_matches sz samples v)"
      by (simp add: pmf_estimate_def count_loop_run Let_def)
    moreover from t have "pmf_count s2 = pmf_count (pmf_estimate sz samples v s0)"
      by (auto simp: pmf_term_def store_result_def Let_def split: sum.splits)
    ultimately show ?thesis using Suc c0 s by (simp add: algebra_simps)
  qed
  with it show ?case by simp
qed

text \<open>The locals \<open>pmf_trips k\<close> are those that the loop of \<^verbatim>\<open>pmf\<close> passes through.\<close>

lemma pmf_loop_trips:
  assumes "int k < sint n \<or> k = 0"
  shows "pmf_run rnd sz samples v n =
           (case pmf_trips rnd k sz samples v n of
              Inl e \<Rightarrow> Inl e
            | Inr s \<Rightarrow> pmf_loop rnd sz samples v n s)"
  using assms
proof (induction k)
  case 0
  then show ?case by (simp add: pmf_run_def)
next
  case (Suc k)
  then have kn: "int (Suc k) < sint n" by simp
  then have IH: "pmf_run rnd sz samples v n =
           (case pmf_trips rnd k sz samples v n of
              Inl e \<Rightarrow> Inl e
            | Inr s \<Rightarrow> pmf_loop rnd sz samples v n s)"
    using Suc.IH by simp
  show ?case
  proof (cases "pmf_trips rnd k sz samples v n")
    case (Inl e)
    with IH show ?thesis by simp
  next
    case (Inr s0)
    show ?thesis
    proof (cases "pmf_trip rnd sz samples v n s0")
      case (Inl e)
      with Inr IH show ?thesis by (subst (asm) pmf_loop.simps) simp
    next
      case tr: (Inr s1)
      from Inr tr have "pmf_trips rnd (Suc k) sz samples v n = Inr s1" by simp
      from pmf_trips_state [OF _ this] kn have "pmf_iteration s1 = of_nat (Suc k)" by simp
      moreover have "sint (of_nat (Suc k) :: c_long) = int (Suc k)"
        using kn by (rule of_nat_long_sint)
      ultimately have "pmf_iteration s1 <s n" using kn by (simp add: word_sless_alt)
      with Inr tr IH show ?thesis by (subst (asm) pmf_loop.simps) simp
    qed
  qed
qed

lemma long_small_quotient:
  fixes sz :: c_long
  assumes "j < unat sz"
  shows "(of_nat j :: c_long) div sz = 0"
proof -
  have "unat sz < 2 ^ 64" using unsigned_less [of sz, where 'a = nat] by simp
  with assms have "unat (of_nat j :: c_long) = j"
    by (simp add: unat_of_nat)
  with assms have "unat ((of_nat j :: c_long) div sz) = 0"
    by (simp add: unat_div)
  then show ?thesis by (simp add: unat_eq_0)
qed

lemma pmf_p_at_value:
  assumes "0 < k" and "int k < sint n" and "pmf_p_at rnd k sz samples v n = Inr p"
  shows "p = of_nat (k * examined_matches sz samples v) div sz"
proof -
  from assms(3) obtain s where t: "pmf_trips rnd k sz samples v n = Inr s"
    and p: "p = pmf_p (pmf_estimate sz samples v s)"
    by (auto simp: pmf_p_at_def split: sum.splits)
  from pmf_trips_state [OF _ t] assms(2)
  have c: "pmf_count s = of_nat ((k - 1) * examined_matches sz samples v)" by simp
  from assms(1) have "(k - 1) * examined_matches sz samples v + examined_matches sz samples v
      = k * examined_matches sz samples v"
    by (cases k) simp_all
  then have "pmf_count s + of_nat (examined_matches sz samples v)
      = (of_nat (k * examined_matches sz samples v) :: c_long)"
    unfolding c by (metis of_nat_add)
  with p show ?thesis
    by (simp add: pmf_estimate_def count_loop_run Let_def)
qed

text \<open>
  Claim C9, as stated: in both routines \<open>p\<close> is 0 whenever fewer than \<^verbatim>\<open>sizeof(set)\<close> of
  the examined elements match. In \<^verbatim>\<open>pmf\<close> the count is not reset between trips: with 4
  matches among the 8 examined elements, the count is 8 in trip 2 and \<open>p\<close> is 1.
\<close>

theorem accumulated_count_counterexample:
  "examined_matches 8 (array_then [Finite 1, Finite 1, Finite 1, Finite 1, Finite 0, Finite 0, Finite 0, Finite 0] (\<lambda>i. NaN)) (Finite 1) = 4
   \<and> (4 :: nat) < unat (8 :: c_long)
   \<and> pmf_p_at exact 2 8 (array_then [Finite 1, Finite 1, Finite 1, Finite 1, Finite 0, Finite 0, Finite 0, Finite 0] (\<lambda>i. NaN)) (Finite 1) 3 = Inr 1"
  by code_simp

text \<open>
  Claim C9, amended. The length both routines use is \<^verbatim>\<open>sizeof(set)\<close>, the size of the
  pointer. In \<^verbatim>\<open>mean\<close>, \<open>p\<close> is the integer quotient of the number of matches among the
  examined elements by that size, hence 0 whenever fewer than \<^verbatim>\<open>sizeof(set)\<close> of them
  match. In \<^verbatim>\<open>pmf\<close>, the \<open>p\<close> estimated in trip \<open>k\<close> (for \<open>1 \<le> k < number_of_iteraions\<close>) is
  the integer quotient of \<open>k\<close> times that number by \<^verbatim>\<open>sizeof(set)\<close>, hence 0 whenever \<open>k\<close>
  times the number of matches is less than \<^verbatim>\<open>sizeof(set)\<close>. It is an integer in both.
\<close>

theorem empirical_p_integer_quotient:
  "mean_p (mean_run sz samples v n) =
      Finite (of_nat (examined_matches sz samples v div unat sz))
   \<and> (examined_matches sz samples v < unat sz \<longrightarrow>
        mean_p (mean_run sz samples v n) = Finite 0)
   \<and> (0 < k \<and> int k < sint n \<and> pmf_p_at rnd k sz samples v n = Inr p \<longrightarrow>
      p = of_nat (k * examined_matches sz samples v) div sz
      \<and> (k * examined_matches sz samples v < unat sz \<longrightarrow> p = 0))"
proof -
  note a = mean_run_p [of sz samples v n]
  have a0: "mean_p (mean_run sz samples v n) = Finite 0"
    if "examined_matches sz samples v < unat sz"
    using a that by simp
  have b: "p = of_nat (k * examined_matches sz samples v) div sz"
    if "0 < k \<and> int k < sint n \<and> pmf_p_at rnd k sz samples v n = Inr p"
    using that pmf_p_at_value [of k n rnd sz samples v p] by simp
  have b0: "p = 0"
    if "0 < k \<and> int k < sint n \<and> pmf_p_at rnd k sz samples v n = Inr p"
      and "k * examined_matches sz samples v < unat sz"
    using b [OF that(1)] long_small_quotient [OF that(2)] by simp
  from a a0 b b0 show ?thesis by blast
qed

theorem empirical_p_integer_quotient_witness:
  "examined_matches 8 (array_then [Finite 1, Finite 1, Finite 1, Finite 0, Finite 0, Finite 0, Finite 0, Finite 0] (\<lambda>i. NaN)) (Finite 1) = 3
   \<and> (3 :: nat) < unat (8 :: c_long)
   \<and> mean_p (mean_run 8 (array_then [Finite 1, Finite 1, Finite 1, Finite 0, Finite 0, Finite 0, Finite 0, Finite 0] (\<lambda>i. NaN)) (Finite 1) 3) = Finite 0
   \<and> (0 :: nat) < 2 \<and> int 2 < sint (3 :: c_long)
   \<and> pmf_p_at exact 2 8 (array_then [Finite 1, Finite 1, Finite 1, Finite 0, Finite 0, Finite 0, Finite 0, Finite 0] (\<lambda>i. NaN)) (Finite 1) 3 = Inr 0
   \<and> (2 :: nat) * 3 < unat (8 :: c_long)"
proof -
  have m: "examined_matches 8 (array_then [Finite 1, Finite 1, Finite 1, Finite 0, Finite 0, Finite 0, Finite 0, Finite 0] (\<lambda>i. NaN)) (Finite 1) = 3"
    by code_simp
  have p: "pmf_p_at exact 2 8 (array_then [Finite 1, Finite 1, Finite 1, Finite 0, Finite 0, Finite 0, Finite 0, Finite 0] (\<lambda>i. NaN)) (Finite 1) 3 = Inr 0"
    by code_simp
  have h: "(3 :: nat) < unat (8 :: c_long) \<and> (0 :: nat) < 2 \<and> int 2 < sint (3 :: c_long)
      \<and> (2 :: nat) * 3 < unat (8 :: c_long)"
    by simp
  from empirical_p_integer_quotient [of 8 "array_then [Finite 1, Finite 1, Finite 1, Finite 0, Finite 0, Finite 0, Finite 0, Finite 0] (\<lambda>i. NaN)" "Finite 1" 3
      2 exact 0] p m h
  have "mean_p (mean_run 8 (array_then [Finite 1, Finite 1, Finite 1, Finite 0, Finite 0, Finite 0, Finite 0, Finite 0] (\<lambda>i. NaN)) (Finite 1) 3) = Finite 0
      \<and> (0 :: c_long) = of_nat (2 * 3) div 8"
    by simp
  with p m h show ?thesis by simp
qed

end
